theory Spec2Isabelle
  imports Main
begin

section \<open>Log levels (pkg/level.go)\<close>

text \<open>
  \<^verbatim>\<open>type LogLevel int\<close> with the constants \<^verbatim>\<open>LevelDebug .. LevelError\<close> numbered by
  \<^verbatim>\<open>iota\<close>. A level is an integer: the source compares levels with \<^verbatim>\<open><\<close>, tests a
  level against the literal \<^verbatim>\<open>0\<close>, and \<^verbatim>\<open>LevelToString\<close> has a \<^verbatim>\<open>default\<close> branch for
  values that are none of the four constants.
\<close>

type_synonym LogLevel = int

definition LevelDebug :: LogLevel where "LevelDebug = 0"
definition LevelInfo :: LogLevel where "LevelInfo = 1"
definition LevelWarn :: LogLevel where "LevelWarn = 2"
definition LevelError :: LogLevel where "LevelError = 3"

definition LevelToString :: "LogLevel \<Rightarrow> string" where
  "LevelToString level =
     (if level = LevelDebug then ''debug''
      else if level = LevelInfo then ''info''
      else if level = LevelWarn then ''warn''
      else if level = LevelError then ''error''
      else ''unknown'')"

section \<open>The buffer (pkg/buffer.go)\<close>

text \<open>
  A Go panic and a goroutine that blocks for ever are outcomes of the model, not values
  a caller receives. \<open>NotEnabled\<close> marks an event of a trace that cannot happen in the
  state it is applied to (a tick of a worker that is not running).
\<close>

datatype error = Panic | Blocked | NotEnabled

record LogEntry =
  Timestamp :: int
  Message :: string
  Level :: LogLevel

text \<open>
  The struct \<^verbatim>\<open>Buffer\<close>. The mutex \<^verbatim>\<open>mu\<close> makes \<^verbatim>\<open>Add\<close> and \<^verbatim>\<open>Flush\<close> atomic; in the
  model each of them is one function application, so the field is left out. The
  field \<^verbatim>\<open>size\<close> is called \<open>size_B\<close>, since \<open>size\<close> is a constant of HOL. A slice is
  the list of its elements.
\<close>

record Buffer =
  entries :: "LogEntry list"
  size_B :: int

text \<open>
  \<^verbatim>\<open>make([]LogEntry, 0, size)\<close> panics at run time when \<^verbatim>\<open>size\<close> is negative. The failure
  of an allocation that exceeds the memory of the machine is not modelled.
\<close>

definition make_entries :: "int \<Rightarrow> error + LogEntry list" where
  "make_entries cap = (if cap < 0 then Inl Panic else Inr [])"

definition NewBuffer :: "int \<Rightarrow> error + Buffer" where
  "NewBuffer sz =
     (case make_entries sz of
        Inl e \<Rightarrow> Inl e
      | Inr es \<Rightarrow> Inr \<lparr>entries = es, size_B = sz\<rparr>)"

definition Add :: "Buffer \<Rightarrow> LogEntry \<Rightarrow> Buffer \<times> bool" where
  "Add b entry =
     (let b' = b\<lparr>entries := entries b @ [entry]\<rparr>
      in (b', int (length (entries b')) \<ge> size_B b'))"

definition Flush :: "Buffer \<Rightarrow> error + (LogEntry list \<times> Buffer)" where
  "Flush b =
     (let es = entries b
      in case make_entries (size_B b) of
           Inl e \<Rightarrow> Inl e
         | Inr fresh \<Rightarrow> Inr (es, b\<lparr>entries := fresh\<rparr>))"

text \<open>Sequential \<^verbatim>\<open>Add\<close> calls with no drain in between: the flags they return, in order.\<close>

fun add_all :: "Buffer \<Rightarrow> LogEntry list \<Rightarrow> Buffer \<times> bool list" where
  "add_all b [] = (b, [])"
| "add_all b (e # es) =
     (case Add b e of (b1, r) \<Rightarrow>
        (case add_all b1 es of (b2, rs) \<Rightarrow> (b2, r # rs)))"

text \<open>
  A sequence of \<^verbatim>\<open>Add\<close> and \<^verbatim>\<open>Flush\<close> calls on one buffer, and the slices the \<^verbatim>\<open>Flush\<close>
  calls return, in call order.
\<close>

datatype buffer_op = OpAdd LogEntry | OpFlush

fun run_ops :: "Buffer \<Rightarrow> buffer_op list \<Rightarrow> error + (Buffer \<times> LogEntry list list)" where
  "run_ops b [] = Inr (b, [])"
| "run_ops b (OpAdd e # ops) = run_ops (fst (Add b e)) ops"
| "run_ops b (OpFlush # ops) =
     (case Flush b of
        Inl err \<Rightarrow> Inl err
      | Inr (drained, b1) \<Rightarrow>
          (case run_ops b1 ops of
             Inl err \<Rightarrow> Inl err
           | Inr (b2, outs) \<Rightarrow> Inr (b2, drained # outs)))"

fun added :: "buffer_op list \<Rightarrow> LogEntry list" where
  "added [] = []"
| "added (OpAdd e # ops) = e # added ops"
| "added (OpFlush # ops) = added ops"

section \<open>Configuration and payload (loki/types.go)\<close>

text \<open>A \<^verbatim>\<open>map[string]string\<close> is a partial function; a \<^verbatim>\<open>[2]string\<close> is a pair.\<close>

record Stream =
  Stream :: "string \<rightharpoonup> string"
  Values :: "(string \<times> string) list"

record PushRequest =
  Streams :: "Stream list"

text \<open>
  Modelled from the spec: the field \<^verbatim>\<open>MinLevel\<close> of \<^verbatim>\<open>ClientConfig\<close> (``minLevel (default
  Info)''). The declaration in loki/types.go has the other five fields only; the type of
  \<^verbatim>\<open>MinLevel\<close> is fixed by its uses in \<^verbatim>\<open>NewClient\<close> (\<^verbatim>\<open>config.MinLevel = pkg.LevelInfo\<close>) and
  in \<^verbatim>\<open>pushLogWithLevel\<close> (\<^verbatim>\<open>level < c.config.MinLevel\<close>). \<^verbatim>\<open>BatchSize\<close> is a Go \<^verbatim>\<open>int\<close>,
  the two waiting times are \<^verbatim>\<open>int64\<close> numbers of seconds.
\<close>

record ClientConfig =
  URL :: string
  Labels :: "string \<rightharpoonup> string"
  BatchSize :: int
  MinWaitTime :: int
  MaxWaitTime :: int
  MinLevel :: LogLevel

text \<open>
  The configuration of the examples: the one of main.go with the label job = test, for a
  given batch size and minimum level.
\<close>

definition test_config :: "int \<Rightarrow> LogLevel \<Rightarrow> ClientConfig" where
  "test_config batch level =
     \<lparr>URL = ''http://localhost:3100'', Labels = [''job'' \<mapsto> ''test''], BatchSize = batch,
      MinWaitTime = 1, MaxWaitTime = 10, MinLevel = level\<rparr>"

section \<open>The client (loki/client.go)\<close>

text \<open>
  The struct \<^verbatim>\<open>Client\<close>. The channel \<^verbatim>\<open>done\<close> is unbuffered and holds no value between
  two operations; what matters of it is which goroutines wait to receive on it, and
  that is part of the state of the running system below.
\<close>

record Client =
  config :: ClientConfig
  buffer :: Buffer

definition NewClient :: "ClientConfig \<Rightarrow> error + Client" where
  "NewClient config0 =
     (let config1 = (if BatchSize config0 = 0 then config0\<lparr>BatchSize := 100\<rparr> else config0);
          config2 = (if MinWaitTime config1 = 0 then config1\<lparr>MinWaitTime := 1\<rparr> else config1);
          config3 = (if MaxWaitTime config2 = 0 then config2\<lparr>MaxWaitTime := 10\<rparr> else config2);
          config4 = (if MinLevel config3 = 0 then config3\<lparr>MinLevel := LevelInfo\<rparr> else config3)
      in case NewBuffer (BatchSize config4) of
           Inl err \<Rightarrow> Inl err
         | Inr b \<Rightarrow> Inr \<lparr>config = config4, buffer = b\<rparr>)"

subsection \<open>Shaping the payload\<close>

text \<open>\<^verbatim>\<open>strconv.FormatInt(i, 10)\<close>: the decimal digits of \<open>i\<close>, after a minus sign when \<open>i < 0\<close>.\<close>

definition digits :: string where
  "digits = ''0123456789''"

fun formatBits :: "nat \<Rightarrow> string" where
  "formatBits u =
     (if u < 10 then [digits ! u] else formatBits (u div 10) @ [digits ! (u mod 10)])"

declare formatBits.simps [simp del]

definition FormatInt :: "int \<Rightarrow> string" where
  "FormatInt i = (if i < 0 then CHR ''-'' # formatBits (nat (- i)) else formatBits (nat i))"


definition value_of :: "LogEntry \<Rightarrow> string \<times> string" where
  "value_of entry = (FormatInt (Timestamp entry), Message entry)"

text \<open>
  \<^verbatim>\<open>levelGroups\<close> is a Go map from levels to slices of values. It is kept as a list of
  pairs with distinct keys so that the \<^verbatim>\<open>range\<close> loop over it can run; a key that is new
  goes to the end. Go leaves the order in which \<^verbatim>\<open>range\<close> visits a map open, the model
  visits the keys in the order of their first entry. \<open>append_group g l v\<close> is
  \<^verbatim>\<open>levelGroups[l] = append(levelGroups[l], v)\<close>.
\<close>

fun append_group ::
  "(LogLevel \<times> (string \<times> string) list) list \<Rightarrow> LogLevel \<Rightarrow> string \<times> string \<Rightarrow>
   (LogLevel \<times> (string \<times> string) list) list" where
  "append_group [] l v = [(l, [v])]"
| "append_group ((k, vs) # g) l v =
     (if k = l then (k, vs @ [v]) # g else (k, vs) # append_group g l v)"

definition levelGroups_of :: "LogEntry list \<Rightarrow> (LogLevel \<times> (string \<times> string) list) list" where
  "levelGroups_of es = foldl (\<lambda>g entry. append_group g (Level entry) (value_of entry)) [] es"



definition stream_of_group :: "ClientConfig \<Rightarrow> LogLevel \<times> (string \<times> string) list \<Rightarrow> Stream" where
  "stream_of_group cfg grp =
     (case grp of (level, vals) \<Rightarrow>
        \<lparr>Stream = (Map.empty ++ Labels cfg)(''detected_level'' \<mapsto> LevelToString level),
         Values = vals\<rparr>)"

text \<open>
  \<^verbatim>\<open>flush\<close> drains the buffer and, unless the drained slice is empty, hands one
  \<^verbatim>\<open>PushRequest\<close> to \<^verbatim>\<open>send\<close>. The transport is outside the model: the result of \<open>flush\<close>
  holds the request that \<^verbatim>\<open>send\<close> receives (\<open>None\<close> when \<^verbatim>\<open>flush\<close> returns early), and the
  error \<^verbatim>\<open>send\<close> returns is only printed, so it changes nothing.
\<close>

definition flush :: "Client \<Rightarrow> error + (Client \<times> PushRequest option)" where
  "flush c =
     (case Flush (buffer c) of
        Inl err \<Rightarrow> Inl err
      | Inr (es, b) \<Rightarrow>
          (let c1 = c\<lparr>buffer := b\<rparr>
           in if length es = 0 then Inr (c1, None)
              else Inr (c1, Some \<lparr>Streams = map (stream_of_group (config c)) (levelGroups_of es)\<rparr>)))"

subsection \<open>Submitting\<close>

text \<open>
  \<open>now\<close> is the value of \<^verbatim>\<open>time.Now().UnixNano()\<close> at the call. A result \<open>Inr\<close> is a call
  that returns; the Go function returns the error \<^verbatim>\<open>nil\<close> on every path.
\<close>

definition pushLogWithLevel ::
  "Client \<Rightarrow> int \<Rightarrow> string \<Rightarrow> LogLevel \<Rightarrow> error + (Client \<times> PushRequest option)" where
  "pushLogWithLevel c now message level =
     (if level < MinLevel (config c) then Inr (c, None)
      else
        (let entry = \<lparr>Timestamp = now, Message = message, Level = level\<rparr>;
             r = Add (buffer c) entry;
             c1 = c\<lparr>buffer := fst r\<rparr>
         in if snd r then flush c1 else Inr (c1, None)))"

definition Debug :: "Client \<Rightarrow> int \<Rightarrow> string \<Rightarrow> error + (Client \<times> PushRequest option)" where
  "Debug c now message = pushLogWithLevel c now message LevelDebug"

definition Info :: "Client \<Rightarrow> int \<Rightarrow> string \<Rightarrow> error + (Client \<times> PushRequest option)" where
  "Info c now message = pushLogWithLevel c now message LevelInfo"

definition Warn :: "Client \<Rightarrow> int \<Rightarrow> string \<Rightarrow> error + (Client \<times> PushRequest option)" where
  "Warn c now message = pushLogWithLevel c now message LevelWarn"

definition Error :: "Client \<Rightarrow> int \<Rightarrow> string \<Rightarrow> error + (Client \<times> PushRequest option)" where
  "Error c now message = pushLogWithLevel c now message LevelError"

subsection \<open>The revision without levels\<close>

text \<open>
  The earlier revision of loki/client.go has \<^verbatim>\<open>PushLog\<close> in place of the four level
  methods, and its \<^verbatim>\<open>flush\<close> (here \<open>flush_plain\<close>) builds a single stream from the labels
  of the configuration.
\<close>

definition flush_plain :: "Client \<Rightarrow> error + (Client \<times> PushRequest option)" where
  "flush_plain c =
     (case Flush (buffer c) of
        Inl err \<Rightarrow> Inl err
      | Inr (es, b) \<Rightarrow>
          (let c1 = c\<lparr>buffer := b\<rparr>
           in if length es = 0 then Inr (c1, None)
              else Inr (c1, Some \<lparr>Streams = [\<lparr>Stream = Labels (config c), Values = map value_of es\<rparr>]\<rparr>)))"

definition PushLog :: "Client \<Rightarrow> int \<Rightarrow> string \<Rightarrow> error + (Client \<times> PushRequest option)" where
  "PushLog c now message =
     (let entry = \<lparr>Timestamp = now, Message = message, Level = 0\<rparr>;
          r = Add (buffer c) entry;
          c1 = c\<lparr>buffer := fst r\<rparr>
      in if snd r then flush_plain c1 else Inr (c1, None))"

subsection \<open>The worker\<close>

text \<open>
  Clock readings and durations are numbers of nanoseconds. A \<^verbatim>\<open>time.Duration\<close> is an
  \<^verbatim>\<open>int64\<close>: the product \<^verbatim>\<open>time.Second * time.Duration(c.config.MaxWaitTime)\<close> wraps around,
  and \<^verbatim>\<open>time.Since\<close> saturates.
\<close>

definition wrap64 :: "int \<Rightarrow> int" where
  "wrap64 x = (x + 2 ^ 63) mod 2 ^ 64 - 2 ^ 63"

definition sat64 :: "int \<Rightarrow> int" where
  "sat64 x = max (- (2 ^ 63)) (min (2 ^ 63 - 1) x)"

definition Second :: int where
  "Second = 1000000000"

definition maxWait :: "ClientConfig \<Rightarrow> int" where
  "maxWait cfg = wrap64 (Second * MaxWaitTime cfg)"

definition Since :: "int \<Rightarrow> int \<Rightarrow> int" where
  "Since now t = sat64 (now - t)"

text \<open>
  A worker goroutine is either waiting in its \<^verbatim>\<open>select\<close>, with the value of its local
  variable \<^verbatim>\<open>lastFlush\<close>, or it has returned.
\<close>

datatype worker = Running int | Exited

text \<open>
  The prologue of \<^verbatim>\<open>worker\<close>: \<^verbatim>\<open>time.NewTicker\<close> panics when the interval is not positive;
  \<open>now\<close> is the reading of \<^verbatim>\<open>time.Now()\<close>.
\<close>

definition worker_start :: "Client \<Rightarrow> int \<Rightarrow> error + worker" where
  "worker_start c now = (if maxWait (config c) \<le> 0 then Inl Panic else Inr (Running now))"

text \<open>
  One round of the loop of \<^verbatim>\<open>worker\<close>: the case of the \<^verbatim>\<open>select\<close> that fires. \<open>TickerC now now'\<close>
  is a tick; \<open>now\<close> is the clock that \<^verbatim>\<open>time.Since\<close> reads and \<open>now'\<close> the one that
  \<^verbatim>\<open>time.Now()\<close> reads after \<^verbatim>\<open>flush\<close> has returned.
\<close>

datatype selected = Done | TickerC int int

definition worker_round ::
  "Client \<Rightarrow> int \<Rightarrow> selected \<Rightarrow> error + (Client \<times> PushRequest option \<times> worker)" where
  "worker_round c lastFlush sel =
     (case sel of
        Done \<Rightarrow> Inr (c, None, Exited)
      | TickerC now now' \<Rightarrow>
          if Since now lastFlush \<ge> maxWait (config c)
          then (case flush c of
                  Inl err \<Rightarrow> Inl err
                | Inr (c1, req) \<Rightarrow> Inr (c1, req, Running now'))
          else Inr (c, None, Running lastFlush))"

section \<open>Executions\<close>

text \<open>
  The running system: the client, the workers that \<^verbatim>\<open>Start\<close> has launched (in launch
  order) and the requests handed to \<^verbatim>\<open>send\<close> so far, each with the clock reading of the
  event that caused it. An execution is a sequence of events, each atomic: the calls of
  one caller goroutine (\<^verbatim>\<open>Debug\<close>, \<^verbatim>\<open>Info\<close>, \<^verbatim>\<open>Warn\<close>, \<^verbatim>\<open>Error\<close>, \<^verbatim>\<open>Start\<close>, \<^verbatim>\<open>Stop\<close>) and
  the ticks of the workers.

  \<open>CallStart now\<close> is \<^verbatim>\<open>Start()\<close> together with the prologue of the worker it launches.
  \<open>CallStop i\<close> is \<^verbatim>\<open>Stop()\<close>, that is \<^verbatim>\<open>c.done <- true\<close>, with \<open>i\<close> the worker that
  receives the value. The channel is unbuffered (\<^verbatim>\<open>make(chan bool)\<close>), so the send
  completes only when a worker waiting in its \<^verbatim>\<open>select\<close> takes the value; when no
  worker is running, the caller blocks, and since the caller is the one goroutine that
  could launch a worker, it blocks for ever.
\<close>

record World =
  client :: Client
  workers :: "worker list"
  sent :: "(int \<times> PushRequest) list"

datatype event =
    CallDebug int string
  | CallInfo int string
  | CallWarn int string
  | CallError int string
  | CallStart int
  | Tick nat int int
  | CallStop nat

definition deliver :: "World \<Rightarrow> int \<Rightarrow> Client \<Rightarrow> PushRequest option \<Rightarrow> World" where
  "deliver w now c req =
     w\<lparr>client := c, sent := sent w @ (case req of None \<Rightarrow> [] | Some r \<Rightarrow> [(now, r)])\<rparr>"

definition submit :: "World \<Rightarrow> int \<Rightarrow> error + (Client \<times> PushRequest option) \<Rightarrow> error + World" where
  "submit w now res =
     (case res of
        Inl err \<Rightarrow> Inl err
      | Inr (c, req) \<Rightarrow> Inr (deliver w now c req))"

definition round_of :: "World \<Rightarrow> nat \<Rightarrow> int \<Rightarrow> selected \<Rightarrow> error + World" where
  "round_of w i now sel =
     (if i < length (workers w)
      then (case workers w ! i of
              Exited \<Rightarrow> Inl NotEnabled
            | Running lastFlush \<Rightarrow>
                (case worker_round (client w) lastFlush sel of
                   Inl err \<Rightarrow> Inl err
                 | Inr (c, req, wk) \<Rightarrow>
                     Inr ((deliver w now c req)\<lparr>workers := (workers w)[i := wk]\<rparr>)))
      else Inl NotEnabled)"

text \<open>
  \<^verbatim>\<open>Start\<close> launches a worker, whose prologue runs with the clock reading \<open>now\<close>. \<^verbatim>\<open>Stop\<close>
  sends on \<^verbatim>\<open>done\<close>; \<open>i\<close> is the worker that takes the value.
\<close>

definition Start :: "World \<Rightarrow> int \<Rightarrow> error + World" where
  "Start w now =
     (case worker_start (client w) now of
        Inl err \<Rightarrow> Inl err
      | Inr wk \<Rightarrow> Inr (w\<lparr>workers := workers w @ [wk]\<rparr>))"

definition Stop :: "World \<Rightarrow> nat \<Rightarrow> error + World" where
  "Stop w i =
     (if list_all (\<lambda>wk. wk = Exited) (workers w) then Inl Blocked
      else round_of w i 0 Done)"

fun step :: "World \<Rightarrow> event \<Rightarrow> error + World" where
  "step w (CallDebug now message) = submit w now (Debug (client w) now message)"
| "step w (CallInfo now message) = submit w now (Info (client w) now message)"
| "step w (CallWarn now message) = submit w now (Warn (client w) now message)"
| "step w (CallError now message) = submit w now (Error (client w) now message)"
| "step w (CallStart now) = Start w now"
| "step w (Tick i now now') = round_of w i now (TickerC now now')"
| "step w (CallStop i) = Stop w i"

fun run :: "World \<Rightarrow> event list \<Rightarrow> error + World" where
  "run w [] = Inr w"
| "run w (ev # evs) =
     (case step w ev of
        Inl err \<Rightarrow> Inl err
      | Inr w1 \<Rightarrow> run w1 evs)"

definition boot :: "ClientConfig \<Rightarrow> error + World" where
  "boot cfg =
     (case NewClient cfg of
        Inl err \<Rightarrow> Inl err
      | Inr c \<Rightarrow> Inr \<lparr>client = c, workers = [], sent = []\<rparr>)"

text \<open>The same client, and the same system, with another minimum waiting time.\<close>

definition set_MinWaitTime :: "int \<Rightarrow> Client \<Rightarrow> Client" where
  "set_MinWaitTime m c = c\<lparr>config := (config c)\<lparr>MinWaitTime := m\<rparr>\<rparr>"

definition set_MinWaitTime_world :: "int \<Rightarrow> World \<Rightarrow> World" where
  "set_MinWaitTime_world m w = w\<lparr>client := set_MinWaitTime m (client w)\<rparr>"

section \<open>Evaluating the definitions\<close>

text \<open>The definitions that an execution on given values unfolds, and the timestamps of the examples.\<close>

lemmas exec_defs =
  test_config_def boot_def Start_def Stop_def NewClient_def NewBuffer_def make_entries_def Let_def
  LevelDebug_def LevelInfo_def LevelWarn_def LevelError_def LevelToString_def
  Debug_def Info_def Warn_def Error_def pushLogWithLevel_def Add_def
  flush_def Flush_def levelGroups_of_def value_of_def stream_of_group_def
  submit_def deliver_def round_of_def worker_start_def worker_round_def
  maxWait_def Since_def Second_def wrap64_def sat64_def


lemma FormatInt_2: "FormatInt 2 = ''2''"
  by code_simp

lemma FormatInt_4: "FormatInt 4 = ''4''"
  by code_simp

lemma FormatInt_5: "FormatInt 5 = ''5''"
  by code_simp

lemma FormatInt_6: "FormatInt 6 = ''6''"
  by code_simp




section \<open>Properties of the buffer\<close>

subsection \<open>The threshold\<close>

lemma add_all_Cons:
  "add_all b (e # es) =
     (fst (add_all (fst (Add b e)) es), snd (Add b e) # snd (add_all (fst (Add b e)) es))"
  by (simp split: prod.splits)

lemma Add_fst: "fst (Add b e) = b\<lparr>entries := entries b @ [e]\<rparr>"
  by (simp add: Add_def)

lemma Add_snd: "snd (Add b e) = (size_B b \<le> int (Suc (length (entries b))))"
  by (simp add: Add_def)

lemma add_all_entries: "entries (fst (add_all b es)) = entries b @ es"
proof (induction es arbitrary: b)
  case Nil
  show ?case by simp
next
  case (Cons e es)
  show ?case
    unfolding add_all_Cons fst_conv Cons.IH by (simp add: Add_fst)
qed

lemma add_all_size: "size_B (fst (add_all b es)) = size_B b"
proof (induction es arbitrary: b)
  case Nil
  show ?case by simp
next
  case (Cons e es)
  show ?case
    unfolding add_all_Cons fst_conv Cons.IH by (simp add: Add_fst)
qed

lemma add_all_flags:
  "snd (add_all b es) =
     map (\<lambda>i. size_B b \<le> int (Suc (length (entries b) + i))) [0..<length es]"
proof (induction es arbitrary: b)
  case Nil
  show ?case by simp
next
  case (Cons e es)
  have shift: "[0..<length (e # es)] = 0 # map Suc [0..<length es]"
    by (simp add: upt_conv_Cons map_Suc_upt del: upt_Suc)
  show ?case
    unfolding add_all_Cons snd_conv Cons.IH shift
    by (simp add: Add_fst Add_snd comp_def del: of_nat_Suc of_nat_add)
qed

lemma flags_at_threshold:
  "map (\<lambda>i. int (Suc m) \<le> int (Suc i)) [0..<Suc m] = replicate m False @ [True]"
proof -
  have "map (\<lambda>i. int (Suc m) \<le> int (Suc i)) [0..<m] = map (\<lambda>i. False) [0..<m]"
    by (rule map_cong) auto
  then show ?thesis by (simp add: map_replicate_const)
qed

lemma add_all_new_flags:
  assumes "length es = Suc m"
  shows "snd (add_all \<lparr>entries = [], size_B = int (Suc m)\<rparr> es) = replicate m False @ [True]"
proof -
  have "snd (add_all \<lparr>entries = [], size_B = int (Suc m)\<rparr> es) =
        map (\<lambda>i. int (Suc m) \<le> int (Suc i)) [0..<Suc m]"
    unfolding add_all_flags assms by simp
  then show ?thesis unfolding flags_at_threshold .
qed


lemma Add_step:
  "entries (fst (Add b e)) = entries b @ [e]
   \<and> size_B (fst (Add b e)) = size_B b
   \<and> snd (Add b e) = (size_B b \<le> int (length (entries (fst (Add b e)))))"
  by (simp add: Add_def)

lemma NewBuffer_nonneg: "0 \<le> n \<Longrightarrow> NewBuffer n = Inr \<lparr>entries = [], size_B = n\<rparr>"
  by (simp add: NewBuffer_def make_entries_def)

lemma add_all_new:
  assumes "0 < n" and "length es = n"
  shows "snd (add_all \<lparr>entries = [], size_B = int n\<rparr> es) = replicate (n - 1) False @ [True]
         \<and> length (entries (fst (add_all \<lparr>entries = [], size_B = int n\<rparr> es))) = n"
proof -
  obtain m where m: "n = Suc m" using assms(1) gr0_implies_Suc by blast
  have "length es = Suc m" using assms(2) m by simp
  from add_all_new_flags [OF this]
  have "snd (add_all \<lparr>entries = [], size_B = int n\<rparr> es) = replicate (n - 1) False @ [True]"
    unfolding m by simp
  moreover have "length (entries (fst (add_all \<lparr>entries = [], size_B = int n\<rparr> es))) = n"
    unfolding add_all_entries using assms(2) by simp
  ultimately show ?thesis by blast
qed

text \<open>
  Claim C5. \<^verbatim>\<open>Add\<close> appends the entry and returns true exactly when the length after
  the append is at least the batch size. For sequential calls with no drain in between,
  call number \<open>i + 1\<close> returns true exactly when the length before the calls plus
  \<open>i + 1\<close> is at least the size. Hence, on a buffer that \<^verbatim>\<open>NewBuffer n\<close> built with
  \<open>0 < n\<close>, the first \<open>n - 1\<close> of \<open>n\<close> calls return false and the call that makes the
  length equal to \<open>n\<close> returns true.
\<close>

theorem Add_threshold:
  "entries (fst (Add b e)) = entries b @ [e]
   \<and> size_B (fst (Add b e)) = size_B b
   \<and> snd (Add b e) = (size_B b \<le> int (length (entries (fst (Add b e)))))
   \<and> snd (add_all b es) =
       map (\<lambda>i. size_B b \<le> int (Suc (length (entries b) + i))) [0..<length es]
   \<and> (0 < n \<and> length es = n \<longrightarrow>
        (case NewBuffer (int n) of
           Inl err \<Rightarrow> False
         | Inr b0 \<Rightarrow>
             snd (add_all b0 es) = replicate (n - 1) False @ [True]
             \<and> length (entries (fst (add_all b0 es))) = n))"
proof -
  have seq: "case NewBuffer (int n) of
           Inl err \<Rightarrow> False
         | Inr b0 \<Rightarrow>
             snd (add_all b0 es) = replicate (n - 1) False @ [True]
             \<and> length (entries (fst (add_all b0 es))) = n"
    if "0 < n" and "length es = n"
  proof -
    have new: "NewBuffer (int n) = Inr \<lparr>entries = [], size_B = int n\<rparr>"
      by (rule NewBuffer_nonneg) simp
    show ?thesis
      unfolding new sum.case by (rule add_all_new [OF that])
  qed
  then have "0 < n \<and> length es = n \<longrightarrow>
        (case NewBuffer (int n) of
           Inl err \<Rightarrow> False
         | Inr b0 \<Rightarrow>
             snd (add_all b0 es) = replicate (n - 1) False @ [True]
             \<and> length (entries (fst (add_all b0 es))) = n)"
    by blast
  with Add_step [of b e] add_all_flags [of b es] show ?thesis
    by (simp only: simp_thms)
qed

theorem Add_threshold_witness:
  "(0 :: nat) < 2
   \<and> length [\<lparr>Timestamp = 1, Message = ''a'', Level = 1\<rparr>,
             \<lparr>Timestamp = 2, Message = ''b'', Level = 1\<rparr>] = 2
   \<and> NewBuffer (int 2) = Inr \<lparr>entries = [], size_B = 2\<rparr>
   \<and> snd (add_all \<lparr>entries = [], size_B = 2\<rparr>
        [\<lparr>Timestamp = 1, Message = ''a'', Level = 1\<rparr>,
         \<lparr>Timestamp = 2, Message = ''b'', Level = 1\<rparr>]) = [False, True]"
  using Add_threshold [where n = 2 and b = "\<lparr>entries = [], size_B = 2\<rparr>"
      and e = "\<lparr>Timestamp = 1, Message = ''a'', Level = 1\<rparr>"
      and es = "[\<lparr>Timestamp = 1, Message = ''a'', Level = 1\<rparr>,
                 \<lparr>Timestamp = 2, Message = ''b'', Level = 1\<rparr>]"]
  by (simp add: NewBuffer_def make_entries_def)

subsection \<open>Draining\<close>

lemma Flush_nonneg: "0 \<le> size_B b \<Longrightarrow> Flush b = Inr (entries b, b\<lparr>entries := []\<rparr>)"
  by (simp add: Flush_def make_entries_def)

lemma Flush_negative: "size_B b < 0 \<Longrightarrow> Flush b = Inl Panic"
  by (simp add: Flush_def make_entries_def)

lemma run_ops_total:
  "0 \<le> size_B b \<Longrightarrow>
   \<exists>b1 outs. run_ops b ops = Inr (b1, outs)
     \<and> size_B b1 = size_B b
     \<and> concat outs @ entries b1 = entries b @ added ops"
proof (induction b ops rule: run_ops.induct)
  case (1 b)
  show ?case by simp
next
  case (2 b e ops)
  have "0 \<le> size_B (fst (Add b e))" using "2.prems" by (simp add: Add_fst)
  from "2.IH" [OF this] show ?case by (auto simp: Add_fst)
next
  case (3 b ops)
  have fl: "Flush b = Inr (entries b, b\<lparr>entries := []\<rparr>)"
    using "3.prems" by (rule Flush_nonneg)
  have "0 \<le> size_B (b\<lparr>entries := []\<rparr>)" using "3.prems" by simp
  from "3.IH" [OF fl refl this] show ?case using fl by auto
qed

lemma run_ops_append:
  "run_ops b ops = Inr (b1, outs1) \<Longrightarrow> run_ops b1 ops' = Inr (b2, outs2) \<Longrightarrow>
   run_ops b (ops @ ops') = Inr (b2, outs1 @ outs2)"
proof (induction b ops arbitrary: outs1 rule: run_ops.induct)
  case (1 b)
  then show ?case by simp
next
  case (2 b e ops)
  then show ?case by simp
next
  case (3 b ops)
  from "3.prems"(1) obtain drained bb outs where
    fl: "Flush b = Inr (drained, bb)" and r: "run_ops bb ops = Inr (b1, outs)"
    and o: "outs1 = drained # outs"
    by (auto split: sum.splits prod.splits)
  from "3.IH" [OF fl refl r "3.prems"(2)]
  have "run_ops bb (ops @ ops') = Inr (b2, outs @ outs2)" .
  then show ?case using fl o by simp
qed

lemma run_ops_adds: "run_ops b (map OpAdd es) = Inr (b\<lparr>entries := entries b @ es\<rparr>, [])"
  by (induction es arbitrary: b) (simp_all add: Add_fst)

lemma run_ops_flush_adds_flush_flush:
  assumes "0 \<le> size_B b"
  shows "run_ops b (OpFlush # map OpAdd es @ [OpFlush, OpFlush]) =
         Inr (b\<lparr>entries := []\<rparr>, [entries b, es, []])"
proof -
  let ?b0 = "b\<lparr>entries := []\<rparr>"
  let ?b1 = "b\<lparr>entries := es\<rparr>"
  have one: "run_ops b [OpFlush] = Inr (?b0, [entries b])"
    using assms by (simp add: Flush_nonneg)
  have two: "run_ops ?b0 (map OpAdd es) = Inr (?b1, [])"
    by (simp add: run_ops_adds)
  have three: "run_ops ?b1 [OpFlush, OpFlush] = Inr (?b0, [es, []])"
    using assms by (simp add: Flush_nonneg)
  from run_ops_append [OF two three]
  have "run_ops ?b0 (map OpAdd es @ [OpFlush, OpFlush]) = Inr (?b0, [es, []])" by simp
  from run_ops_append [OF one this] show ?thesis by simp
qed

text \<open>
  Claim C6. On a buffer whose size is not negative (every buffer that \<^verbatim>\<open>NewBuffer\<close>
  returns), \<^verbatim>\<open>Flush\<close> returns the whole sequence in insertion order and leaves the empty
  sequence that \<^verbatim>\<open>make\<close> builds for the batch size. After any sequence \<open>ops\<close> of \<^verbatim>\<open>Add\<close> and
  \<^verbatim>\<open>Flush\<close> calls, the results of the \<^verbatim>\<open>Flush\<close> calls followed by what the buffer still holds
  are, concatenated, exactly the initial content followed by the entries added, so no
  entry is returned twice and none is left out; and a \<^verbatim>\<open>Flush\<close>, then the \<^verbatim>\<open>Add\<close> of \<open>es\<close>, then
  two more \<^verbatim>\<open>Flush\<close> calls return what was pending, then exactly \<open>es\<close>, then nothing. With
  a negative size \<^verbatim>\<open>make\<close> panics.
\<close>

theorem Flush_drains:
  "if 0 \<le> size_B b
   then Flush b = Inr (entries b, b\<lparr>entries := []\<rparr>)
     \<and> (\<exists>b1 outs. run_ops b ops = Inr (b1, outs)
           \<and> size_B b1 = size_B b
           \<and> concat outs @ entries b1 = entries b @ added ops
           \<and> run_ops b (ops @ OpFlush # map OpAdd es @ [OpFlush, OpFlush]) =
               Inr (b1\<lparr>entries := []\<rparr>, outs @ [entries b1, es, []]))
   else Flush b = Inl Panic"
proof (cases "0 \<le> size_B b")
  case True
  from run_ops_total [OF True, of ops] obtain b1 outs where
    r: "run_ops b ops = Inr (b1, outs)" and s: "size_B b1 = size_B b"
    and c: "concat outs @ entries b1 = entries b @ added ops"
    by blast
  have "0 \<le> size_B b1" using True s by simp
  from run_ops_append [OF r run_ops_flush_adds_flush_flush [OF this, of es]]
  have "run_ops b (ops @ OpFlush # map OpAdd es @ [OpFlush, OpFlush]) =
        Inr (b1\<lparr>entries := []\<rparr>, outs @ [entries b1, es, []])" .
  with r s c Flush_nonneg [OF True] True show ?thesis by simp
next
  case False
  then show ?thesis by (simp add: Flush_negative)
qed

theorem Flush_drains_witness:
  "(0 :: int) \<le> size_B \<lparr>entries = [\<lparr>Timestamp = 1, Message = ''a'', Level = LevelInfo\<rparr>], size_B = 3\<rparr>
   \<and> Flush \<lparr>entries = [\<lparr>Timestamp = 1, Message = ''a'', Level = LevelInfo\<rparr>], size_B = 3\<rparr> =
       Inr ([\<lparr>Timestamp = 1, Message = ''a'', Level = LevelInfo\<rparr>], \<lparr>entries = [], size_B = 3\<rparr>)
   \<and> run_ops \<lparr>entries = [\<lparr>Timestamp = 1, Message = ''a'', Level = LevelInfo\<rparr>], size_B = 3\<rparr>
        [OpAdd \<lparr>Timestamp = 2, Message = ''b'', Level = LevelWarn\<rparr>, OpFlush,
         OpAdd \<lparr>Timestamp = 3, Message = ''c'', Level = LevelInfo\<rparr>, OpFlush, OpFlush] =
       Inr (\<lparr>entries = [], size_B = 3\<rparr>,
            [[\<lparr>Timestamp = 1, Message = ''a'', Level = LevelInfo\<rparr>,
              \<lparr>Timestamp = 2, Message = ''b'', Level = LevelWarn\<rparr>],
             [\<lparr>Timestamp = 3, Message = ''c'', Level = LevelInfo\<rparr>],
             []])"
proof -
  let ?a = "\<lparr>Timestamp = 1, Message = ''a'', Level = LevelInfo\<rparr>"
  let ?b = "\<lparr>Timestamp = 2, Message = ''b'', Level = LevelWarn\<rparr>"
  let ?c = "\<lparr>Timestamp = 3, Message = ''c'', Level = LevelInfo\<rparr>"
  let ?buf = "\<lparr>entries = [?a], size_B = 3\<rparr>"
  have size: "0 \<le> size_B ?buf" by simp
  have pre: "run_ops ?buf [OpAdd ?b] = Inr (\<lparr>entries = [?a, ?b], size_B = 3\<rparr>, [])"
    by (simp add: Add_def)
  from Flush_drains [where b = ?buf and ops = "[OpAdd ?b]" and es = "[?c]"] size
  have fl: "Flush ?buf = Inr ([?a], \<lparr>entries = [], size_B = 3\<rparr>)"
    and "\<exists>b1 outs. run_ops ?buf [OpAdd ?b] = Inr (b1, outs)
           \<and> size_B b1 = size_B ?buf
           \<and> concat outs @ entries b1 = entries ?buf @ added [OpAdd ?b]
           \<and> run_ops ?buf ([OpAdd ?b] @ OpFlush # map OpAdd [?c] @ [OpFlush, OpFlush]) =
               Inr (b1\<lparr>entries := []\<rparr>, outs @ [entries b1, [?c], []])"
    by simp_all
  then have "run_ops ?buf ([OpAdd ?b] @ OpFlush # map OpAdd [?c] @ [OpFlush, OpFlush]) =
      Inr (\<lparr>entries = [], size_B = 3\<rparr>, [[?a, ?b], [?c], []])"
    unfolding pre by auto
  then have "run_ops ?buf [OpAdd ?b, OpFlush, OpAdd ?c, OpFlush, OpFlush] =
      Inr (\<lparr>entries = [], size_B = 3\<rparr>, [[?a, ?b], [?c], []])"
    by (simp only: append.simps list.map)
  with size fl show ?thesis by (intro conjI)
qed

section \<open>Properties of the client\<close>

subsection \<open>The configuration never changes\<close>

lemma flush_config: "flush c = Inr (c1, req) \<Longrightarrow> config c1 = config c"
  by (auto simp: flush_def Let_def split: sum.splits prod.splits if_splits)

lemma pushLogWithLevel_config:
  "pushLogWithLevel c now message level = Inr (c1, req) \<Longrightarrow> config c1 = config c"
  by (auto simp: pushLogWithLevel_def Let_def dest: flush_config split: if_splits)

lemma worker_round_config:
  "worker_round c lastFlush sel = Inr (c1, req, wk) \<Longrightarrow> config c1 = config c"
  by (auto simp: worker_round_def dest: flush_config split: selected.splits if_splits sum.splits)

lemma submit_config:
  assumes "submit w now res = Inr w1"
    and "\<And>c req. res = Inr (c, req) \<Longrightarrow> config c = config (client w)"
  shows "config (client w1) = config (client w)"
  using assms by (auto simp: submit_def deliver_def split: sum.splits)

lemma round_of_config:
  "round_of w i now sel = Inr w1 \<Longrightarrow> config (client w1) = config (client w)"
  by (auto simp: round_of_def deliver_def dest: worker_round_config
      split: if_splits worker.splits sum.splits)

lemma step_config: "step w ev = Inr w1 \<Longrightarrow> config (client w1) = config (client w)"
proof (cases ev)
  case (CallDebug now m)
  assume "step w ev = Inr w1"
  then show ?thesis unfolding CallDebug step.simps Debug_def
    by (rule submit_config) (rule pushLogWithLevel_config)
next
  case (CallInfo now m)
  assume "step w ev = Inr w1"
  then show ?thesis unfolding CallInfo step.simps Info_def
    by (rule submit_config) (rule pushLogWithLevel_config)
next
  case (CallWarn now m)
  assume "step w ev = Inr w1"
  then show ?thesis unfolding CallWarn step.simps Warn_def
    by (rule submit_config) (rule pushLogWithLevel_config)
next
  case (CallError now m)
  assume "step w ev = Inr w1"
  then show ?thesis unfolding CallError step.simps Error_def
    by (rule submit_config) (rule pushLogWithLevel_config)
next
  case (CallStart now)
  assume "step w ev = Inr w1"
  then show ?thesis unfolding CallStart
    by (auto simp: Start_def split: sum.splits)
next
  case (Tick i now now')
  assume "step w ev = Inr w1"
  then show ?thesis unfolding Tick step.simps by (rule round_of_config)
next
  case (CallStop i)
  assume "step w ev = Inr w1"
  then show ?thesis unfolding CallStop
    by (auto simp: Stop_def dest: round_of_config split: if_splits)
qed

lemma run_config: "run w evs = Inr w1 \<Longrightarrow> config (client w1) = config (client w)"
proof (induction evs arbitrary: w)
  case Nil
  then show ?case by simp
next
  case (Cons ev evs)
  from Cons.prems obtain w0 where s: "step w ev = Inr w0" and r: "run w0 evs = Inr w1"
    by (auto split: sum.splits)
  from Cons.IH [OF r] step_config [OF s] show ?case by simp
qed



subsection \<open>The level filter\<close>

lemma Debug_filtered:
  "LevelInfo \<le> MinLevel (config c) \<Longrightarrow> Debug c now message = Inr (c, None)"
  by (simp add: Debug_def pushLogWithLevel_def LevelDebug_def LevelInfo_def)

text \<open>
  Claim C7. A call below the minimum level returns with the client unchanged and no
  request sent. A call at or above it appends one entry with the message, the level
  and the clock reading; when the buffer then is below its size the call returns with
  nothing sent, otherwise the call is the \<^verbatim>\<open>flush\<close> of the buffer that holds the new entry.
  With the minimum level Warn, a Debug, an Info and a Warn call leave the Warn entry
  alone in the buffer.
\<close>

theorem pushLogWithLevel_filter:
  "pushLogWithLevel c now message level =
     (if level < MinLevel (config c) then Inr (c, None)
      else if int (length (entries (buffer c))) + 1 < size_B (buffer c)
      then Inr (c\<lparr>buffer := (buffer c)\<lparr>entries := entries (buffer c) @
                 [\<lparr>Timestamp = now, Message = message, Level = level\<rparr>]\<rparr>\<rparr>, None)
      else flush (c\<lparr>buffer := (buffer c)\<lparr>entries := entries (buffer c) @
                 [\<lparr>Timestamp = now, Message = message, Level = level\<rparr>]\<rparr>\<rparr>))
   \<and> (case boot (test_config 100 LevelWarn) of
        Inl err \<Rightarrow> False
      | Inr w0 \<Rightarrow>
          (case run w0 [CallDebug 1 ''d'', CallInfo 2 ''i'', CallWarn 3 ''w''] of
             Inl err \<Rightarrow> False
           | Inr w \<Rightarrow>
               entries (buffer (client w)) = [\<lparr>Timestamp = 3, Message = ''w'', Level = LevelWarn\<rparr>]
               \<and> sent w = []))"
proof -
  have general: "pushLogWithLevel c now message level =
     (if level < MinLevel (config c) then Inr (c, None)
      else if int (length (entries (buffer c))) + 1 < size_B (buffer c)
      then Inr (c\<lparr>buffer := (buffer c)\<lparr>entries := entries (buffer c) @
                 [\<lparr>Timestamp = now, Message = message, Level = level\<rparr>]\<rparr>\<rparr>, None)
      else flush (c\<lparr>buffer := (buffer c)\<lparr>entries := entries (buffer c) @
                 [\<lparr>Timestamp = now, Message = message, Level = level\<rparr>]\<rparr>\<rparr>))"
    by (simp add: pushLogWithLevel_def Let_def Add_fst Add_snd)
  have example: "(case boot (test_config 100 LevelWarn) of
        Inl err \<Rightarrow> False
      | Inr w0 \<Rightarrow>
          (case run w0 [CallDebug 1 ''d'', CallInfo 2 ''i'', CallWarn 3 ''w''] of
             Inl err \<Rightarrow> False
           | Inr w \<Rightarrow>
               entries (buffer (client w)) = [\<lparr>Timestamp = 3, Message = ''w'', Level = LevelWarn\<rparr>]
               \<and> sent w = []))"
    by (simp add: test_config_def boot_def NewClient_def NewBuffer_def make_entries_def Let_def
        LevelWarn_def LevelInfo_def LevelDebug_def Debug_def Info_def Warn_def
        pushLogWithLevel_def submit_def deliver_def Add_def)
  from general example show ?thesis by (rule conjI)
qed

subsection \<open>The minimum level of a client\<close>

text \<open>
  Claim C10, as stated, fails: a \<^verbatim>\<open>LogLevel\<close> is an integer, a negative \<^verbatim>\<open>MinLevel\<close> is
  not the zero value, so \<^verbatim>\<open>NewClient\<close> keeps it, and the client buffers Debug entries.
\<close>

theorem NewClient_negative_MinLevel:
  "NewClient (test_config 100 (- 1)) =
     Inr \<lparr>config = test_config 100 (- 1),
          buffer = \<lparr>entries = [], size_B = 100\<rparr>\<rparr>
   \<and> (- 1 :: LogLevel) < LevelInfo
   \<and> Debug \<lparr>config = test_config 100 (- 1),
            buffer = \<lparr>entries = [], size_B = 100\<rparr>\<rparr> 7 ''x'' =
     Inr (\<lparr>config = test_config 100 (- 1),
           buffer = \<lparr>entries = [\<lparr>Timestamp = 7, Message = ''x'', Level = LevelDebug\<rparr>], size_B = 100\<rparr>\<rparr>,
          None)"
  by (simp add: test_config_def NewClient_def NewBuffer_def make_entries_def Let_def
      LevelInfo_def LevelDebug_def Debug_def pushLogWithLevel_def Add_def)

text \<open>
  Claim C10, amended. When the configured \<^verbatim>\<open>MinLevel\<close> is not negative (as each of the
  four level constants is), the client that \<^verbatim>\<open>NewClient\<close> returns has a minimum level of
  at least Info, a configured Debug gives the same client as a configured Info, and
  in every state the client reaches a Debug call returns with nothing buffered and
  nothing sent.
\<close>

theorem NewClient_MinLevel:
  "0 \<le> MinLevel cfg \<Longrightarrow> NewClient cfg = Inr c \<Longrightarrow>
     LevelInfo \<le> MinLevel (config c)
     \<and> NewClient (cfg\<lparr>MinLevel := LevelDebug\<rparr>) = NewClient (cfg\<lparr>MinLevel := LevelInfo\<rparr>)
     \<and> (case run \<lparr>client = c, workers = ws, sent = ss\<rparr> evs of
          Inl err \<Rightarrow> True
        | Inr w \<Rightarrow> Debug (client w) now message = Inr (client w, None)
                 \<and> step w (CallDebug now message) = Inr w)"
proof -
  assume nonneg: "0 \<le> MinLevel cfg" and new: "NewClient cfg = Inr c"
  have lev: "LevelInfo \<le> MinLevel (config c)"
    using nonneg new
    by (auto simp: NewClient_def NewBuffer_def make_entries_def Let_def LevelInfo_def
        split: if_splits)
  have same: "NewClient (cfg\<lparr>MinLevel := LevelDebug\<rparr>) = NewClient (cfg\<lparr>MinLevel := LevelInfo\<rparr>)"
    by (cases cfg)
      (simp add: NewClient_def NewBuffer_def make_entries_def Let_def LevelDebug_def LevelInfo_def)
  have "Debug (client w) now message = Inr (client w, None) \<and> step w (CallDebug now message) = Inr w"
    if r: "run \<lparr>client = c, workers = ws, sent = ss\<rparr> evs = Inr w" for w
  proof -
    have "config (client w) = config c" using run_config [OF r] by simp
    then have d: "Debug (client w) now message = Inr (client w, None)"
      using lev by (simp add: Debug_filtered)
    then show ?thesis by (simp add: submit_def deliver_def)
  qed
  then have "case run \<lparr>client = c, workers = ws, sent = ss\<rparr> evs of
          Inl err \<Rightarrow> True
        | Inr w \<Rightarrow> Debug (client w) now message = Inr (client w, None)
                 \<and> step w (CallDebug now message) = Inr w"
    by (simp split: sum.splits del: step.simps)
  with lev same show ?thesis by simp
qed

theorem NewClient_MinLevel_witness:
  "(0 :: LogLevel) \<le> MinLevel (test_config 100 LevelDebug)
   \<and> NewClient (test_config 100 LevelDebug) =
      Inr \<lparr>config = test_config 100 LevelInfo,
           buffer = \<lparr>entries = [], size_B = 100\<rparr>\<rparr>
   \<and> LevelInfo \<le> MinLevel (config \<lparr>config = test_config 100 LevelInfo,
           buffer = \<lparr>entries = [], size_B = 100\<rparr>\<rparr>)
   \<and> step \<lparr>client = \<lparr>config = test_config 100 LevelInfo,
           buffer = \<lparr>entries = [], size_B = 100\<rparr>\<rparr>, workers = [], sent = []\<rparr> (CallDebug 5 ''dbg'') =
      Inr \<lparr>client = \<lparr>config = test_config 100 LevelInfo,
           buffer = \<lparr>entries = [], size_B = 100\<rparr>\<rparr>, workers = [], sent = []\<rparr>"
proof -
  let ?cfg = "test_config 100 LevelDebug"
  let ?c = "\<lparr>config = test_config 100 LevelInfo,
           buffer = \<lparr>entries = [], size_B = 100\<rparr>\<rparr>"
  have h1: "0 \<le> MinLevel ?cfg" by (simp add: test_config_def LevelDebug_def)
  have h2: "NewClient ?cfg = Inr ?c"
    by (simp add: test_config_def NewClient_def NewBuffer_def make_entries_def Let_def
        LevelDebug_def)
  let ?w = "\<lparr>client = ?c, workers = [], sent = []\<rparr>"
  note r = NewClient_MinLevel [OF h1 h2, where ws = "[]" and ss = "[]" and evs = "[]"
      and now = 5 and message = "''dbg''"]
  from r have a: "LevelInfo \<le> MinLevel (config ?c)" by (rule conjunct1)
  from r have "case run ?w [] of Inl err \<Rightarrow> True
      | Inr w \<Rightarrow> Debug (client w) 5 ''dbg'' = Inr (client w, None)
                 \<and> step w (CallDebug 5 ''dbg'') = Inr w"
    by (elim conjE)
  then have b: "step ?w (CallDebug 5 ''dbg'') = Inr ?w"
    by (simp only: run.simps sum.case)
  from h1 h2 a b show ?thesis by (intro conjI)
qed

subsection \<open>Grouping by level\<close>














subsection \<open>Buffered levels\<close>










subsection \<open>Decimal timestamps\<close>







section \<open>Properties of executions\<close>

subsection \<open>Stopping\<close>

text \<open>
  Claim C1 fails on the code. With the batch size 100, a started worker, two Info calls
  and then \<^verbatim>\<open>Stop\<close>: the worker has returned, nothing was ever sent, and the two
  entries are still in the buffer. In no state does \<^verbatim>\<open>Stop\<close> send a request or touch the
  buffer.
\<close>

theorem Stop_sends_nothing:
  "(case boot (test_config 100 LevelInfo) of
      Inl err \<Rightarrow> False
    | Inr w0 \<Rightarrow>
        (case run w0 [CallStart 0, CallInfo 1 ''a'', CallInfo 2 ''b'', CallStop 0] of
           Inl err \<Rightarrow> False
         | Inr w \<Rightarrow>
             sent w = []
             \<and> entries (buffer (client w)) = [\<lparr>Timestamp = 1, Message = ''a'', Level = LevelInfo\<rparr>, \<lparr>Timestamp = 2, Message = ''b'', Level = LevelInfo\<rparr>]
             \<and> workers w = [Exited]))
   \<and> (case step w (CallStop i) of
        Inl err \<Rightarrow> True
      | Inr w1 \<Rightarrow> sent w1 = sent w \<and> client w1 = client w)"
proof -
  have a: "case boot (test_config 100 LevelInfo) of
      Inl err \<Rightarrow> False
    | Inr w0 \<Rightarrow>
        (case run w0 [CallStart 0, CallInfo 1 ''a'', CallInfo 2 ''b'', CallStop 0] of
           Inl err \<Rightarrow> False
         | Inr w \<Rightarrow>
             sent w = []
             \<and> entries (buffer (client w)) = [\<lparr>Timestamp = 1, Message = ''a'', Level = LevelInfo\<rparr>, \<lparr>Timestamp = 2, Message = ''b'', Level = LevelInfo\<rparr>]
             \<and> workers w = [Exited])"
    by (simp add: exec_defs)
  have b: "case step w (CallStop i) of
        Inl err \<Rightarrow> True
      | Inr w1 \<Rightarrow> sent w1 = sent w \<and> client w1 = client w"
    by (auto simp: Stop_def round_of_def worker_round_def deliver_def
        split: sum.splits if_splits worker.splits)
  from a b show ?thesis by (rule conjI)
qed


subsection \<open>The minimum waiting time\<close>

lemma flush_MinWaitTime:
  "flush (set_MinWaitTime m c) =
     (case flush c of Inl err \<Rightarrow> Inl err | Inr (c1, req) \<Rightarrow> Inr (set_MinWaitTime m c1, req))"
  by (simp add: flush_def set_MinWaitTime_def Flush_def make_entries_def Let_def stream_of_group_def
      cong: map_cong)

lemma pushLogWithLevel_MinWaitTime:
  "pushLogWithLevel (set_MinWaitTime m c) now message level =
     (case pushLogWithLevel c now message level of
        Inl err \<Rightarrow> Inl err
      | Inr (c1, req) \<Rightarrow> Inr (set_MinWaitTime m c1, req))"
proof -
  have upd: "(set_MinWaitTime m c)\<lparr>buffer := b\<rparr> = set_MinWaitTime m (c\<lparr>buffer := b\<rparr>)" for b
    by (simp add: set_MinWaitTime_def)
  have cfg: "MinLevel (config (set_MinWaitTime m c)) = MinLevel (config c)"
    "buffer (set_MinWaitTime m c) = buffer c"
    by (simp_all add: set_MinWaitTime_def)
  show ?thesis
    unfolding pushLogWithLevel_def Let_def cfg upd flush_MinWaitTime
    by simp
qed


lemma submit_MinWaitTime:
  assumes "res' = (case res of Inl err \<Rightarrow> Inl err | Inr (c1, req) \<Rightarrow> Inr (set_MinWaitTime m c1, req))"
  shows "submit (set_MinWaitTime_world m w) now res' =
     (case submit w now res of Inl err \<Rightarrow> Inl err | Inr w1 \<Rightarrow> Inr (set_MinWaitTime_world m w1))"
  unfolding assms
  by (simp add: submit_def deliver_def set_MinWaitTime_world_def split: sum.splits)

lemma worker_round_MinWaitTime:
  "worker_round (set_MinWaitTime m c) lastFlush sel =
     (case worker_round c lastFlush sel of
        Inl err \<Rightarrow> Inl err
      | Inr (c1, req, wk) \<Rightarrow> Inr (set_MinWaitTime m c1, req, wk))"
proof -
  have mw: "maxWait (config (set_MinWaitTime m c)) = maxWait (config c)"
    by (simp add: set_MinWaitTime_def maxWait_def)
  show ?thesis
    unfolding worker_round_def mw flush_MinWaitTime
    by (simp split: selected.splits sum.splits)
qed

lemma round_of_MinWaitTime:
  "round_of (set_MinWaitTime_world m w) i now sel =
     (case round_of w i now sel of
        Inl err \<Rightarrow> Inl err
      | Inr w1 \<Rightarrow> Inr (set_MinWaitTime_world m w1))"
proof -
  have ws: "workers (set_MinWaitTime_world m w) = workers w"
    "client (set_MinWaitTime_world m w) = set_MinWaitTime m (client w)"
    by (simp_all add: set_MinWaitTime_world_def)
  show ?thesis
    unfolding round_of_def ws worker_round_MinWaitTime
    by (simp add: deliver_def set_MinWaitTime_world_def split: worker.splits sum.splits)
qed

lemma step_MinWaitTime:
  "step (set_MinWaitTime_world m w) ev =
     (case step w ev of Inl err \<Rightarrow> Inl err | Inr w1 \<Rightarrow> Inr (set_MinWaitTime_world m w1))"
proof -
  have cl: "client (set_MinWaitTime_world m w) = set_MinWaitTime m (client w)"
    "workers (set_MinWaitTime_world m w) = workers w"
    by (simp_all add: set_MinWaitTime_world_def)
  show ?thesis
  proof (cases ev)
    case (CallDebug now msg)
    show ?thesis unfolding CallDebug step.simps cl Debug_def
      by (rule submit_MinWaitTime) (rule pushLogWithLevel_MinWaitTime)
  next
    case (CallInfo now msg)
    show ?thesis unfolding CallInfo step.simps cl Info_def
      by (rule submit_MinWaitTime) (rule pushLogWithLevel_MinWaitTime)
  next
    case (CallWarn now msg)
    show ?thesis unfolding CallWarn step.simps cl Warn_def
      by (rule submit_MinWaitTime) (rule pushLogWithLevel_MinWaitTime)
  next
    case (CallError now msg)
    show ?thesis unfolding CallError step.simps cl Error_def
      by (rule submit_MinWaitTime) (rule pushLogWithLevel_MinWaitTime)
  next
    case (CallStart now)
    show ?thesis unfolding CallStart
      by (simp add: Start_def worker_start_def maxWait_def set_MinWaitTime_world_def
          set_MinWaitTime_def)
  next
    case (Tick i now now')
    show ?thesis unfolding Tick step.simps by (rule round_of_MinWaitTime)
  next
    case (CallStop i)
    show ?thesis unfolding CallStop step.simps Stop_def cl round_of_MinWaitTime by simp
  qed
qed

lemma run_MinWaitTime:
  "run (set_MinWaitTime_world m w) evs =
     (case run w evs of Inl err \<Rightarrow> Inl err | Inr w1 \<Rightarrow> Inr (set_MinWaitTime_world m w1))"
proof (induction evs arbitrary: w)
  case Nil
  show ?case by simp
next
  case (Cons ev evs)
  show ?case
    unfolding run.simps step_MinWaitTime
    by (simp add: Cons.IH split: sum.splits)
qed

lemma sent_MinWaitTime: "sent (set_MinWaitTime_world m w) = sent w"
  by (simp add: set_MinWaitTime_world_def)

text \<open>
  Claim C2 fails on the code. With the batch size 1 and the minimum waiting time of one
  second, two Info calls one nanosecond apart cause two requests, one nanosecond
  apart, each with one entry. No function of the client reads \<^verbatim>\<open>MinWaitTime\<close>: with
  another value in that field every execution goes the same way and sends the same
  requests at the same times.
\<close>

theorem size_flush_not_throttled:
  "(case boot (test_config 1 LevelInfo) of
      Inl err \<Rightarrow> False
    | Inr w0 \<Rightarrow>
        (case run w0 [CallStart 0, CallInfo 5 ''a'', CallInfo 6 ''b''] of
           Inl err \<Rightarrow> False
         | Inr w \<Rightarrow>
             sent w =
               [(5, \<lparr>Streams = [\<lparr>Stream = [''job'' \<mapsto> ''test'', ''detected_level'' \<mapsto> ''info''],
                                  Values = [(''5'', ''a'')]\<rparr>]\<rparr>),
                (6, \<lparr>Streams = [\<lparr>Stream = [''job'' \<mapsto> ''test'', ''detected_level'' \<mapsto> ''info''],
                                  Values = [(''6'', ''b'')]\<rparr>]\<rparr>)]
             \<and> MinWaitTime (config (client w)) = 1
             \<and> (6 :: int) - 5 < MinWaitTime (config (client w)) * Second))
   \<and> run (set_MinWaitTime_world m w) evs =
       (case run w evs of Inl err \<Rightarrow> Inl err | Inr w1 \<Rightarrow> Inr (set_MinWaitTime_world m w1))
   \<and> sent (set_MinWaitTime_world m w1) = sent w1"
  by (simp add: exec_defs FormatInt_5 FormatInt_6 run_MinWaitTime sent_MinWaitTime)

subsection \<open>The time of the last flush\<close>

text \<open>
  Claim C3, as stated, fails. With the batch size 2 and the maximum waiting time of ten
  seconds, a worker started at time 0 and a flush caused by the second Info call at
  5 s: the worker still holds 0 as the time of the last flush. An entry added at 9 s is
  then sent by the tick at 10 s, five seconds after the previous flush.
\<close>

theorem lastFlush_misses_size_flush:
  "(case boot (test_config 2 LevelInfo) of
      Inl err \<Rightarrow> False
    | Inr w0 \<Rightarrow>
        (case run w0 [CallStart 0, CallInfo 4000000000 ''a'', CallInfo 5000000000 ''b''] of
           Inl err \<Rightarrow> False
         | Inr w \<Rightarrow> map fst (sent w) = [5000000000] \<and> workers w = [Running 0])
        \<and> (case run w0 [CallStart 0, CallInfo 4000000000 ''a'', CallInfo 5000000000 ''b'',
                        CallInfo 9000000000 ''c'', Tick 0 10000000000 10000000001] of
             Inl err \<Rightarrow> False
           | Inr w \<Rightarrow> map fst (sent w) = [5000000000, 10000000000]
                      \<and> workers w = [Running 10000000001]
                      \<and> maxWait (config (client w)) = 10000000000))"
  by (simp add: exec_defs)

lemma submit_workers: "submit w now res = Inr w1 \<Longrightarrow> workers w1 = workers w"
  by (auto simp: submit_def deliver_def split: sum.splits)

lemma Tick_running:
  assumes "i < length (workers w)" and "workers w ! i = Running lf"
  shows "step w (Tick i now now') =
     (if maxWait (config (client w)) \<le> Since now lf
      then (case flush (client w) of
              Inl err \<Rightarrow> Inl err
            | Inr (c1, req) \<Rightarrow>
                Inr ((deliver w now c1 req)\<lparr>workers := (workers w)[i := Running now']\<rparr>))
      else Inr w)"
proof (cases "maxWait (config (client w)) \<le> Since now lf")
  case True
  with assms show ?thesis
    by (simp add: round_of_def worker_round_def split: sum.splits)
next
  case False
  have "(workers w)[i := Running lf] = workers w"
    using assms(2) [symmetric] by (simp only: list_update_id)
  with False assms show ?thesis
    by (simp add: round_of_def worker_round_def deliver_def)
qed

text \<open>
  Claim C3, amended. The time of the last flush is a local variable of the worker. No
  call of \<^verbatim>\<open>Debug\<close>, \<^verbatim>\<open>Info\<close>, \<^verbatim>\<open>Warn\<close> or \<^verbatim>\<open>Error\<close> changes it, whether the call
  flushes or not. A tick of a running worker calls \<^verbatim>\<open>flush\<close> exactly when the maximum
  waiting time has passed since that worker's own last flush (or its start), and then
  sets the time to the clock reading taken after the flush; otherwise the tick changes
  nothing.
\<close>

theorem lastFlush_set_by_ticks_only:
  "(case step w (CallDebug t m) of Inl err \<Rightarrow> True | Inr w1 \<Rightarrow> workers w1 = workers w)
   \<and> (case step w (CallInfo t m) of Inl err \<Rightarrow> True | Inr w1 \<Rightarrow> workers w1 = workers w)
   \<and> (case step w (CallWarn t m) of Inl err \<Rightarrow> True | Inr w1 \<Rightarrow> workers w1 = workers w)
   \<and> (case step w (CallError t m) of Inl err \<Rightarrow> True | Inr w1 \<Rightarrow> workers w1 = workers w)
   \<and> step w (Tick i now now') =
       (if i < length (workers w)
        then (case workers w ! i of
                Exited \<Rightarrow> Inl NotEnabled
              | Running lastFlush \<Rightarrow>
                  if maxWait (config (client w)) \<le> Since now lastFlush
                  then (case flush (client w) of
                          Inl err \<Rightarrow> Inl err
                        | Inr (c1, req) \<Rightarrow>
                            Inr ((deliver w now c1 req)
                                  \<lparr>workers := (workers w)[i := Running now']\<rparr>))
                  else Inr w)
        else Inl NotEnabled)"
proof -
  have calls: "case submit w t res of Inl err \<Rightarrow> True | Inr w1 \<Rightarrow> workers w1 = workers w" for res
    using submit_workers [of w t res] by (simp split: sum.splits)
  have tick: "step w (Tick i now now') =
       (if i < length (workers w)
        then (case workers w ! i of
                Exited \<Rightarrow> Inl NotEnabled
              | Running lastFlush \<Rightarrow>
                  if maxWait (config (client w)) \<le> Since now lastFlush
                  then (case flush (client w) of
                          Inl err \<Rightarrow> Inl err
                        | Inr (c1, req) \<Rightarrow>
                            Inr ((deliver w now c1 req)
                                  \<lparr>workers := (workers w)[i := Running now']\<rparr>))
                  else Inr w)
        else Inl NotEnabled)"
  proof (cases "i < length (workers w)")
    case False
    then show ?thesis by (simp add: round_of_def)
  next
    case True
    show ?thesis
    proof (cases "workers w ! i")
      case Exited
      with True show ?thesis by (simp add: round_of_def)
    next
      case (Running lf)
      from Tick_running [OF True Running] True Running show ?thesis by simp
    qed
  qed
  from calls [of "Debug (client w) t m"] calls [of "Info (client w) t m"]
    calls [of "Warn (client w) t m"] calls [of "Error (client w) t m"] tick
  show ?thesis unfolding step.simps by (intro conjI)
qed

theorem lastFlush_set_by_ticks_only_witness:
  "step \<lparr>client = \<lparr>config = test_config 2 LevelInfo,
                    buffer = \<lparr>entries = [\<lparr>Timestamp = 4, Message = ''a'', Level = LevelInfo\<rparr>],
                              size_B = 2\<rparr>\<rparr>,
         workers = [Running 0], sent = []\<rparr> (CallInfo 5 ''b'') =
     Inr \<lparr>client = \<lparr>config = test_config 2 LevelInfo, buffer = \<lparr>entries = [], size_B = 2\<rparr>\<rparr>,
          workers = [Running 0],
          sent = [(5, \<lparr>Streams = [\<lparr>Stream = [''job'' \<mapsto> ''test'', ''detected_level'' \<mapsto> ''info''],
                                     Values = [(''4'', ''a''), (''5'', ''b'')]\<rparr>]\<rparr>)]\<rparr>
   \<and> workers \<lparr>client = \<lparr>config = test_config 2 LevelInfo, buffer = \<lparr>entries = [], size_B = 2\<rparr>\<rparr>,
          workers = [Running 0],
          sent = [(5, \<lparr>Streams = [\<lparr>Stream = [''job'' \<mapsto> ''test'', ''detected_level'' \<mapsto> ''info''],
                                     Values = [(''4'', ''a''), (''5'', ''b'')]\<rparr>]\<rparr>)]\<rparr> = [Running 0]
   \<and> step \<lparr>client = \<lparr>config = test_config 2 LevelInfo,
                    buffer = \<lparr>entries = [\<lparr>Timestamp = 4, Message = ''a'', Level = LevelInfo\<rparr>],
                              size_B = 2\<rparr>\<rparr>,
         workers = [Running 0], sent = []\<rparr> (Tick 0 10000000000 10000000001) =
     Inr \<lparr>client = \<lparr>config = test_config 2 LevelInfo, buffer = \<lparr>entries = [], size_B = 2\<rparr>\<rparr>,
          workers = [Running 10000000001],
          sent = [(10000000000,
                   \<lparr>Streams = [\<lparr>Stream = [''job'' \<mapsto> ''test'', ''detected_level'' \<mapsto> ''info''],
                                 Values = [(''4'', ''a'')]\<rparr>]\<rparr>)]\<rparr>"
proof -
  let ?w = "\<lparr>client = \<lparr>config = test_config 2 LevelInfo,
                    buffer = \<lparr>entries = [\<lparr>Timestamp = 4, Message = ''a'', Level = LevelInfo\<rparr>],
                              size_B = 2\<rparr>\<rparr>,
         workers = [Running 0], sent = []\<rparr>"
  let ?after_info = "\<lparr>client = \<lparr>config = test_config 2 LevelInfo, buffer = \<lparr>entries = [], size_B = 2\<rparr>\<rparr>,
          workers = [Running 0],
          sent = [(5, \<lparr>Streams = [\<lparr>Stream = [''job'' \<mapsto> ''test'', ''detected_level'' \<mapsto> ''info''],
                                     Values = [(''4'', ''a''), (''5'', ''b'')]\<rparr>]\<rparr>)]\<rparr>"
  let ?after_tick = "\<lparr>client = \<lparr>config = test_config 2 LevelInfo, buffer = \<lparr>entries = [], size_B = 2\<rparr>\<rparr>,
          workers = [Running 10000000001],
          sent = [(10000000000,
                   \<lparr>Streams = [\<lparr>Stream = [''job'' \<mapsto> ''test'', ''detected_level'' \<mapsto> ''info''],
                                 Values = [(''4'', ''a'')]\<rparr>]\<rparr>)]\<rparr>"
  have info: "step ?w (CallInfo 5 ''b'') = Inr ?after_info"
    by (simp add: exec_defs FormatInt_4 FormatInt_5)
  have fl: "flush (client ?w) =
      Inr (\<lparr>config = test_config 2 LevelInfo, buffer = \<lparr>entries = [], size_B = 2\<rparr>\<rparr>,
           Some \<lparr>Streams = [\<lparr>Stream = [''job'' \<mapsto> ''test'', ''detected_level'' \<mapsto> ''info''],
                              Values = [(''4'', ''a'')]\<rparr>]\<rparr>)"
    by (simp add: exec_defs FormatInt_4)
  have due: "maxWait (config (client ?w)) \<le> Since 10000000000 0"
    by (simp add: exec_defs)
  note t = lastFlush_set_by_ticks_only [where w = ?w and t = 5 and m = "''b''" and i = 0
      and now = 10000000000 and now' = 10000000001]
  from t have "case step ?w (CallInfo 5 ''b'') of Inl err \<Rightarrow> True
      | Inr w1 \<Rightarrow> workers w1 = workers ?w"
    by (elim conjE) assumption
  then have a: "workers ?after_info = [Running 0]"
    unfolding info by simp
  from t have "step ?w (Tick 0 10000000000 10000000001) =
       (if 0 < length (workers ?w)
        then (case workers ?w ! 0 of
                Exited \<Rightarrow> Inl NotEnabled
              | Running lastFlush \<Rightarrow>
                  if maxWait (config (client ?w)) \<le> Since 10000000000 lastFlush
                  then (case flush (client ?w) of
                          Inl err \<Rightarrow> Inl err
                        | Inr (c1, req) \<Rightarrow>
                            Inr ((deliver ?w 10000000000 c1 req)
                                  \<lparr>workers := (workers ?w)[0 := Running 10000000001]\<rparr>))
                  else Inr ?w)
        else Inl NotEnabled)"
    by (elim conjE) assumption
  then have b: "step ?w (Tick 0 10000000000 10000000001) = Inr ?after_tick"
    unfolding fl using due by (simp add: deliver_def)
  from info a b show ?thesis by (intro conjI)
qed

subsection \<open>Stopping twice\<close>

text \<open>
  Claim C4, as stated, fails. After \<^verbatim>\<open>Start\<close> and one \<^verbatim>\<open>Stop\<close> the worker has returned; a
  second \<^verbatim>\<open>Stop\<close> blocks for ever, and so does a \<^verbatim>\<open>Stop\<close> that no \<^verbatim>\<open>Start\<close> precedes.
\<close>

theorem second_Stop_blocks:
  "(case boot (test_config 100 LevelInfo) of
      Inl err \<Rightarrow> False
    | Inr w0 \<Rightarrow>
        (case run w0 [CallStart 0, CallStop 0] of
           Inl err \<Rightarrow> False
         | Inr w \<Rightarrow> workers w = [Exited])
        \<and> run w0 [CallStart 0, CallStop 0, CallStop 0] = Inl Blocked
        \<and> run w0 [CallStop 0] = Inl Blocked)"
  by (simp add: exec_defs)

text \<open>
  Claim C4, amended. \<^verbatim>\<open>Stop\<close> returns exactly when a worker is running: the worker that
  receives the value returns, nothing else changes, and nothing is sent. When no worker
  is running (none was started, or each one has returned after an earlier \<^verbatim>\<open>Stop\<close>),
  \<^verbatim>\<open>Stop\<close> does not panic and never returns.
\<close>

theorem Stop_needs_running_worker:
  "step w (CallStop i) =
     (if list_all (\<lambda>wk. wk = Exited) (workers w) then Inl Blocked
      else if i < length (workers w) \<and> workers w ! i \<noteq> Exited
      then Inr (w\<lparr>workers := (workers w)[i := Exited]\<rparr>)
      else Inl NotEnabled)"
  by (auto simp: Stop_def round_of_def worker_round_def deliver_def split: worker.splits)

theorem Stop_needs_running_worker_witness:
  "step \<lparr>client = \<lparr>config = test_config 100 LevelInfo, buffer = \<lparr>entries = [], size_B = 100\<rparr>\<rparr>,
         workers = [Running 0], sent = []\<rparr> (CallStop 0) =
     Inr \<lparr>client = \<lparr>config = test_config 100 LevelInfo, buffer = \<lparr>entries = [], size_B = 100\<rparr>\<rparr>,
          workers = [Exited], sent = []\<rparr>
   \<and> step \<lparr>client = \<lparr>config = test_config 100 LevelInfo, buffer = \<lparr>entries = [], size_B = 100\<rparr>\<rparr>,
          workers = [Exited], sent = []\<rparr> (CallStop 0) = Inl Blocked"
  using Stop_needs_running_worker [where i = 0 and
        w = "\<lparr>client = \<lparr>config = test_config 100 LevelInfo,
                          buffer = \<lparr>entries = [], size_B = 100\<rparr>\<rparr>,
              workers = [Running 0], sent = []\<rparr>"]
    Stop_needs_running_worker [where i = 0 and
        w = "\<lparr>client = \<lparr>config = test_config 100 LevelInfo,
                          buffer = \<lparr>entries = [], size_B = 100\<rparr>\<rparr>,
              workers = [Exited], sent = []\<rparr>"]
  by simp

end
